theory Spec2Isabelle
  imports Main "HOL-Library.Word"
begin

unbundle bit_operations_syntax

section \<open>Data model\<close>

text \<open>
  The program \<^verbatim>\<open>camshift_tracking.cpp\<close> is glue code around a vision library. Its own data
  are points, rectangles, the termination criteria, three global variables and two locals of
  \<^verbatim>\<open>main\<close>. Coordinates are C++ \<^verbatim>\<open>int\<close>s; they are modelled as \<open>int\<close>, which agrees with
  the program wherever \<^verbatim>\<open>point.x + point.y\<close> does not overflow (overflow of a signed
  \<^verbatim>\<open>int\<close> is undefined in C++).
\<close>

datatype point = Point (px: int) (py: int)

datatype rect = Rect (rx: int) (ry: int) (rwidth: int) (rheight: int)

text \<open>Default construction: \<^verbatim>\<open>cv::Point()\<close> is (0,0) and \<^verbatim>\<open>cv::Rect()\<close> is (0,0,0,0).\<close>

definition Point_default :: point where
  "Point_default = Point 0 0"

definition Rect_default :: rect where
  "Rect_default = Rect 0 0 0 0"

text \<open>
  \<^verbatim>\<open>cv::Rect(pt1, pt2)\<close>, the constructor from two corner points of the library's
  \<^verbatim>\<open>Rect_\<close> template: \<^verbatim>\<open>x = min(pt1.x, pt2.x); y = min(pt1.y, pt2.y);
  width = max(pt1.x, pt2.x) - x; height = max(pt1.y, pt2.y) - y\<close>.
  \<^verbatim>\<open>Rect::empty()\<close> is \<^verbatim>\<open>width <= 0 || height <= 0\<close>, \<^verbatim>\<open>tl()\<close> is (x, y) and
  \<^verbatim>\<open>br()\<close> is (x + width, y + height).
\<close>

definition Rect_of_points :: "point \<Rightarrow> point \<Rightarrow> rect" where
  "Rect_of_points pt1 pt2 =
     Rect (min (px pt1) (px pt2)) (min (py pt1) (py pt2))
          (max (px pt1) (px pt2) - min (px pt1) (px pt2))
          (max (py pt1) (py pt2) - min (py pt1) (py pt2))"

definition rect_empty :: "rect \<Rightarrow> bool" where
  "rect_empty r \<longleftrightarrow> rwidth r \<le> 0 \<or> rheight r \<le> 0"

definition rect_tl :: "rect \<Rightarrow> point" where
  "rect_tl r = Point (rx r) (ry r)"

definition rect_br :: "rect \<Rightarrow> point" where
  "rect_br r = Point (rx r + rwidth r) (ry r + rheight r)"

text \<open>
  \<^verbatim>\<open>cv::TermCriteria(type, maxCount, epsilon)\<close>; the type is a bit set of
  \<^verbatim>\<open>COUNT = 1\<close> and \<^verbatim>\<open>EPS = 2\<close>. The program passes the integer literal 1 for epsilon.
\<close>

datatype term_criteria = TermCriteria (tc_type: int) (tc_maxCount: int) (tc_epsilon: int)

definition TermCriteria_COUNT :: int where
  "TermCriteria_COUNT = 1"

definition TermCriteria_EPS :: int where
  "TermCriteria_EPS = 2"

definition INT_MAX :: int where
  "INT_MAX = 2147483647"

definition EVENT_LBUTTONDOWN :: int where
  "EVENT_LBUTTONDOWN = 1"

text \<open>
  The vision library is not part of the program. Its entry points are taken as parameters:
  \<open>'m\<close> is the content of a \<^verbatim>\<open>cv::Mat\<close> (an image or a histogram, the empty matrix
  included) and \<open>'r\<close> is a \<^verbatim>\<open>cv::RotatedRect\<close>. Every field is one call of the source with
  the arguments that vary; \<open>CamShift\<close> also returns the search window it leaves in its
  in-out parameter. The library's own failures (assertions on empty matrices) are outside
  the model.
\<close>

record ('m, 'r) cvlib =
  Mat_new :: "'m"
  empty :: "'m \<Rightarrow> bool"
  circle :: "'m \<Rightarrow> point \<Rightarrow> 'm"
  submat :: "'m \<Rightarrow> rect \<Rightarrow> 'm"
  cvtColor_BGR2HSV :: "'m \<Rightarrow> 'm"
  calcHist :: "'m \<Rightarrow> int \<Rightarrow> int \<times> int \<Rightarrow> 'm"
  normalize_MINMAX :: "'m \<Rightarrow> int \<Rightarrow> int \<Rightarrow> 'm"
  calcBackProject :: "'m \<Rightarrow> 'm \<Rightarrow> 'm \<Rightarrow> 'm"
  CamShift :: "'m \<Rightarrow> rect \<Rightarrow> term_criteria \<Rightarrow> 'r \<times> rect"
  boxPoints :: "'r \<Rightarrow> point list"
  polylines :: "'m \<Rightarrow> point list \<Rightarrow> 'm"

text \<open>The calls that reach the outside world, in the order the program makes them.\<close>

datatype 'm action =
    PrintMessage
  | CameraOpenDevice int
  | CameraOpenFile string
  | NamedWindow
  | SetMouseCallback
  | Imshow 'm
  | WaitKey int
  | CamShiftCall 'm rect term_criteria
  | CameraRelease
  | DestroyAllWindows

text \<open>
  The state: pixel buffers live in a store \<open>mats\<close> from addresses to contents, so that a
  deep copy (\<^verbatim>\<open>clone\<close>) and a drawing in place are told apart. The global \<^verbatim>\<open>frame\<close> is the
  buffer at address \<open>frame_addr\<close>; \<open>nalloc\<close> counts the buffers allocated by \<^verbatim>\<open>clone\<close>.
  \<open>roi_points\<close> and \<open>input_mode\<close> are the other two globals, \<open>roi_box\<close> and \<open>roi_hist\<close>
  the locals of \<^verbatim>\<open>main\<close>, and \<open>log\<close> the calls made so far, oldest first.
\<close>

record 'm state =
  mats :: "nat \<Rightarrow> 'm"
  nalloc :: nat
  roi_points :: "point list"
  input_mode :: bool
  roi_box :: rect
  roi_hist :: "'m"
  log :: "'m action list"

definition frame_addr :: nat where
  "frame_addr = 0"

definition init_state :: "('m, 'r) cvlib \<Rightarrow> 'm state" where
  "init_state lib =
     \<lparr>mats = (\<lambda>_. Mat_new lib), nalloc = 0, roi_points = [], input_mode = False,
      roi_box = Rect_default, roi_hist = Mat_new lib, log = []\<rparr>"

definition emit :: "'m action \<Rightarrow> 'm state \<Rightarrow> 'm state" where
  "emit a st = st\<lparr>log := log st @ [a]\<rparr>"

text \<open>\<^verbatim>\<open>cv::imshow("frame", frame)\<close> shows the current content of the global frame.\<close>

definition imshow_frame :: "'m state \<Rightarrow> 'm state" where
  "imshow_frame st = emit (Imshow (mats st frame_addr)) st"

section \<open>The environment\<close>

text \<open>
  A mouse event is (event, x, y). One call of \<^verbatim>\<open>cv::waitKey\<close> dispatches the mouse events
  that arrived, through the registered callback, and returns a key code (a 32-bit
  \<^verbatim>\<open>int\<close>, -1 for no key). A parsed command line gives \<^verbatim>\<open>parser.has("help")\<close> and
  \<^verbatim>\<open>parser.get<std::string>("@video")\<close>. The camera gives one matrix per read, empty when
  there is no frame.
\<close>

type_synonym mouse_event = "int \<times> int \<times> int"

type_synonym wait = "mouse_event list \<times> 32 word"

record cmdline =
  has_help :: bool
  video :: string

section \<open>The program\<close>

text \<open>\<^verbatim>\<open>get_arguments\<close> (lines 22-31): returns the new \<^verbatim>\<open>video_path\<close>.\<close>

definition get_arguments :: "cmdline \<Rightarrow> string \<Rightarrow> 'm state \<Rightarrow> string \<times> 'm state" where
  "get_arguments parser video_path st =
     (if has_help parser then (video_path, emit PrintMessage st)
      else (video parser, st))"

text \<open>\<^verbatim>\<open>select_roi\<close> (lines 33-47), the mouse callback.\<close>

definition select_roi :: "('m, 'r) cvlib \<Rightarrow> mouse_event \<Rightarrow> 'm state \<Rightarrow> 'm state" where
  "select_roi lib ev st =
     (case ev of (event, x, y) \<Rightarrow>
        if input_mode st \<and> event = EVENT_LBUTTONDOWN \<and> length (roi_points st) < 4 then
          imshow_frame
            (st\<lparr>roi_points := roi_points st @ [Point x y],
                mats := (mats st)(frame_addr := circle lib (mats st frame_addr) (Point x y))\<rparr>)
        else st)"

definition waitKey :: "('m, 'r) cvlib \<Rightarrow> int \<Rightarrow> wait \<Rightarrow> 'm state \<Rightarrow> 32 word \<times> 'm state" where
  "waitKey lib delay w st =
     (snd w, foldl (\<lambda>s ev. select_roi lib ev s) (emit (WaitKey delay) st) (fst w))"

text \<open>
  The loop of lines 60-64. It returns the state and the inputs left when it exits, and
  \<open>None\<close> for the inputs when they run out while fewer than 4 points are recorded (the
  program is then still waiting).
\<close>

fun selection_loop ::
  "('m, 'r) cvlib \<Rightarrow> wait list \<Rightarrow> 'm state \<Rightarrow> 'm state \<times> wait list option" where
  "selection_loop lib [] st =
     (if length (roi_points st) < 4 then (st, None) else (st, Some []))"
| "selection_loop lib (w # ws) st =
     (if length (roi_points st) < 4
      then selection_loop lib ws (snd (waitKey lib 0 w (imshow_frame st)))
      else (st, Some (w # ws)))"

text \<open>The loop of lines 69-83 over \<^verbatim>\<open>roi_points_vec\<close>, one step per point.\<close>

definition corner_step :: "int \<times> int \<times> point \<times> point \<Rightarrow> point \<Rightarrow> int \<times> int \<times> point \<times> point" where
  "corner_step acc p =
     (case acc of (min_sum, max_sum, top_left, bottom_right) \<Rightarrow>
        let sum = px p + py p;
            (min_sum, top_left) = (if sum < min_sum then (sum, p) else (min_sum, top_left));
            (max_sum, bottom_right) = (if sum > max_sum then (sum, p) else (max_sum, bottom_right))
        in (min_sum, max_sum, top_left, bottom_right))"

definition roi_corners :: "point list \<Rightarrow> point \<times> point" where
  "roi_corners roi_points_vec =
     (case foldl corner_step (INT_MAX, 0, Point_default, Point_default) roi_points_vec of
        (min_sum, max_sum, top_left, bottom_right) \<Rightarrow> (top_left, bottom_right))"

definition roi_box_of :: "point list \<Rightarrow> rect" where
  "roi_box_of roi_points_vec =
     (case roi_corners roi_points_vec of
        (top_left, bottom_right) \<Rightarrow> Rect_of_points top_left bottom_right)"

text \<open>
  \<^verbatim>\<open>frame_roi\<close> (lines 49-99). \<^verbatim>\<open>frame.clone()\<close> allocates a fresh buffer holding a copy of
  the frame. \<^verbatim>\<open>roi\<close> is a view into that copy; its conversion in place is modelled on
  the view's content, the copy itself not being read again.
\<close>

definition frame_roi ::
  "('m, 'r) cvlib \<Rightarrow> wait list \<Rightarrow> 'm state \<Rightarrow> ('m \<times> rect) option \<times> 'm state \<times> wait list" where
  "frame_roi lib ws st =
     (let st = st\<lparr>input_mode := True\<rparr>;
          orig_frame = Suc (nalloc st);
          st = st\<lparr>mats := (mats st)(orig_frame := mats st frame_addr), nalloc := orig_frame\<rparr>
      in case selection_loop lib ws st of
           (st, None) \<Rightarrow> (None, st, [])
         | (st, Some ws) \<Rightarrow>
             let roi_box = roi_box_of (roi_points st);
                 roi = submat lib (mats st orig_frame) roi_box;
                 roi = cvtColor_BGR2HSV lib roi;
                 histSize = 16;
                 range = (0, 180);
                 roi_hist = calcHist lib roi histSize range;
                 roi_hist = normalize_MINMAX lib roi_hist 0 255
             in (Some (roi_hist, roi_box), st, ws))"

text \<open>
  \<^verbatim>\<open>apply_camshift\<close> (lines 101-120); \<open>box\<close> and \<open>hist\<close> are its parameters
  \<^verbatim>\<open>roi_box\<close> and \<open>roi_hist\<close>. The box is a \<^verbatim>\<open>const\<close> reference and the function
  returns nothing: the window that \<open>CamShift\<close> leaves is not kept.
\<close>

definition apply_camshift ::
  "('m, 'r) cvlib \<Rightarrow> rect \<Rightarrow> term_criteria \<Rightarrow> 'm \<Rightarrow> 'm state \<Rightarrow> 'm state" where
  "apply_camshift lib box termination hist st =
     (let hsv = cvtColor_BGR2HSV lib (mats st frame_addr);
          back_projection = calcBackProject lib hsv hist hist;
          st = emit (CamShiftCall back_projection box termination) st;
          r = fst (CamShift lib back_projection box termination);
          points = boxPoints lib r
      in st\<lparr>mats := (mats st)(frame_addr := polylines lib (mats st frame_addr) points)\<rparr>)"

text \<open>
  One turn of the main loop (lines 147-174) on the frame the camera gives. \<open>Break\<close> leaves
  the loop, \<open>Next\<close> goes on to the next turn, \<open>Starved\<close> says that the recorded inputs ran
  out inside the turn.
\<close>

datatype flow = Next | Break | Starved

definition main_iter ::
  "('m, 'r) cvlib \<Rightarrow> term_criteria \<Rightarrow> 'm \<Rightarrow> wait list \<Rightarrow> 'm state \<Rightarrow> flow \<times> 'm state \<times> wait list" where
  "main_iter lib termination f ws st =
     (let st = st\<lparr>mats := (mats st)(frame_addr := f)\<rparr>
      in if empty lib (mats st frame_addr) then (Break, st, ws)
         else
           let st = (if \<not> rect_empty (roi_box st)
                     then apply_camshift lib (roi_box st) termination (roi_hist st) st
                     else st);
               st = imshow_frame st
           in case ws of
                [] \<Rightarrow> (Starved, st, [])
              | w # ws \<Rightarrow>
                  (case waitKey lib 1 w st of (k, st) \<Rightarrow>
                     let key = (ucast k :: 8 word)
                     in if key = 105 \<and> length (roi_points st) < 4 then
                          (case frame_roi lib ws st of
                             (None, st, ws) \<Rightarrow> (Starved, st, ws)
                           | (Some (h, b), st, ws) \<Rightarrow> (Next, st\<lparr>roi_hist := h, roi_box := b\<rparr>, ws))
                        else if key = 113 then (Break, st, ws)
                        else (Next, st, ws)))"

datatype status = Exited | Waiting

fun main_loop ::
  "('m, 'r) cvlib \<Rightarrow> term_criteria \<Rightarrow> 'm list \<Rightarrow> wait list \<Rightarrow> 'm state \<Rightarrow> 'm state \<times> status" where
  "main_loop lib termination [] ws st = (st, Waiting)"
| "main_loop lib termination (f # fs) ws st =
     (case main_iter lib termination f ws st of
        (Next, st, ws) \<Rightarrow> main_loop lib termination fs ws st
      | (Break, st, ws) \<Rightarrow> (st, Exited)
      | (Starved, st, ws) \<Rightarrow> (st, Waiting))"

text \<open>
  \<^verbatim>\<open>main\<close> (lines 122-179). The result is the final state and the exit code, \<open>None\<close>
  when the recorded inputs end before the program does.
\<close>

definition main ::
  "('m, 'r) cvlib \<Rightarrow> cmdline \<Rightarrow> 'm list \<Rightarrow> wait list \<Rightarrow> 'm state \<times> int option" where
  "main lib parser frames ws =
     (case get_arguments parser [] (init_state lib) of (video_path, st) \<Rightarrow>
        let st = (if video_path = [] then emit (CameraOpenDevice 0) st
                  else emit (CameraOpenFile video_path) st);
            st = emit NamedWindow st;
            st = emit SetMouseCallback st;
            termination = TermCriteria (TermCriteria_EPS OR TermCriteria_COUNT) 10 1;
            st = st\<lparr>roi_box := Rect_default, roi_hist := Mat_new lib\<rparr>
        in case main_loop lib termination frames ws st of
             (st, Exited) \<Rightarrow> (emit DestroyAllWindows (emit CameraRelease st), Some 0)
           | (st, Waiting) \<Rightarrow> (st, None))"

section \<open>Vocabulary of the properties\<close>

definition coord_sum :: "point \<Rightarrow> int" where
  "coord_sum p = px p + py p"

fun is_camshift :: "'m action \<Rightarrow> bool" where
  "is_camshift (CamShiftCall bp w c) = True"
| "is_camshift a = False"

text \<open>The calls of the tracking primitive in a log: back projection, window and criteria.\<close>

fun camshift_calls :: "'m action list \<Rightarrow> ('m \<times> rect \<times> term_criteria) list" where
  "camshift_calls [] = []"
| "camshift_calls (CamShiftCall bp w c # as) = (bp, w, c) # camshift_calls as"
| "camshift_calls (a # as) = camshift_calls as"

text \<open>
  \<open>log_grows P st st'\<close>: the log of \<open>st'\<close> is the log of \<open>st\<close> followed by calls that
  all satisfy \<open>P\<close>.
\<close>

definition log_grows :: "('m action \<Rightarrow> bool) \<Rightarrow> 'm state \<Rightarrow> 'm state \<Rightarrow> bool" where
  "log_grows P st st' \<longleftrightarrow>
     take (length (log st)) (log st') = log st \<and> list_all P (drop (length (log st)) (log st'))"

text \<open>
  Between turns of the main loop the box is either empty or the one that the completed
  selection derived from the recorded points.
\<close>

definition box_inv :: "'m state \<Rightarrow> bool" where
  "box_inv st \<longleftrightarrow>
     rect_empty (roi_box st) \<or>
     (4 \<le> length (roi_points st) \<and> roi_box st = roi_box_of (roi_points st))"

text \<open>The part of a turn of the main loop between the emptiness test and the key.\<close>

definition turn_head :: "('m, 'r) cvlib \<Rightarrow> term_criteria \<Rightarrow> 'm \<Rightarrow> 'm state \<Rightarrow> 'm state" where
  "turn_head lib tc f st =
     (let st = st\<lparr>mats := (mats st)(frame_addr := f)\<rparr>;
          st = (if \<not> rect_empty (roi_box st)
                then apply_camshift lib (roi_box st) tc (roi_hist st) st else st)
      in imshow_frame st)"

text \<open>The state in which \<^verbatim>\<open>main\<close> enters its loop.\<close>

definition main_entry :: "('m, 'r) cvlib \<Rightarrow> cmdline \<Rightarrow> 'm state" where
  "main_entry lib parser =
     (case get_arguments parser [] (init_state lib) of (video_path, st) \<Rightarrow>
        let st = (if video_path = [] then emit (CameraOpenDevice 0) st
                  else emit (CameraOpenFile video_path) st);
            st = emit NamedWindow st;
            st = emit SetMouseCallback st
        in st\<lparr>roi_box := Rect_default, roi_hist := Mat_new lib\<rparr>)"

subsection \<open>Concrete inputs\<close>

text \<open>
  A small library to run the program on: a matrix is a number (0 the empty one), drawing a
  marker adds 1, drawing the tracked outline adds 1000, and the search moves its window by
  (1,1).
\<close>

definition toy_lib :: "(int, rect) cvlib" where
  "toy_lib =
     \<lparr>Mat_new = 0, empty = (\<lambda>m. m = 0), circle = (\<lambda>m p. m + 1),
      submat = (\<lambda>m r. m + rwidth r * rheight r), cvtColor_BGR2HSV = (\<lambda>m. 2 * m),
      calcHist = (\<lambda>m n rng. m + n), normalize_MINMAX = (\<lambda>m a b. m + b),
      calcBackProject = (\<lambda>m h r. m + h),
      CamShift = (\<lambda>bp w tc. (w, Rect (rx w + 1) (ry w + 1) (rwidth w) (rheight w))),
      boxPoints = (\<lambda>r. [rect_tl r, rect_br r]), polylines = (\<lambda>m ps. m + 1000)\<rparr>"

text \<open>
  A recorded session: the key \<^verbatim>\<open>i\<close> (105) on the first frame, four left clicks among
  other events during the selection, then \<^verbatim>\<open>i\<close> and a click again on the next frame.
\<close>

definition toy_tc :: term_criteria where
  "toy_tc = TermCriteria 3 10 1"

definition toy_frame :: "int \<Rightarrow> int state" where
  "toy_frame m = (init_state toy_lib)\<lparr>mats := (\<lambda>_. m)\<rparr>"

definition toy_waits :: "wait list" where
  "toy_waits =
     [([], 105),
      ([(1, 10, 10), (1, 10, 50)], 0),
      ([(0, 5, 5), (1, 50, 10), (1, 50, 50), (1, 60, 60)], 0),
      ([(1, 70, 70)], 105), ([], - 1)]"

definition toy_run :: "int state \<times> int option" where
  "toy_run = main toy_lib \<lparr>has_help = False, video = []\<rparr> [5, 6, 7] toy_waits"

definition toy_selected :: "int state" where
  "toy_selected = fst (main_loop toy_lib toy_tc [5] (take 3 toy_waits) (init_state toy_lib))"

definition toy_degenerate :: "int state" where
  "toy_degenerate =
     fst (main_loop toy_lib toy_tc [5]
            [([], 105), ([(1, 20, 20), (1, 20, 20), (1, 20, 20), (1, 20, 20)], 0)]
            (init_state toy_lib))"

definition square_clicks :: "point list" where
  "square_clicks = [Point 10 10, Point 10 50, Point 50 10, Point 50 50]"

definition leaning_clicks :: "point list" where
  "leaning_clicks = [Point 40 0, Point 50 5, Point 10 100, Point 0 95]"

section \<open>The ROI box\<close>

lemma corner_step_simp:
  "corner_step (mn, mx, top_left, bottom_right) p =
     (if px p + py p < mn then px p + py p else mn,
      if px p + py p > mx then px p + py p else mx,
      if px p + py p < mn then p else top_left,
      if px p + py p > mx then p else bottom_right)"
  by (simp add: corner_step_def Let_def)

lemma corner_loop_invariant:
  "foldl corner_step (mn, mx, top_left, bottom_right) ps = (mn', mx', top_left', bottom_right') \<Longrightarrow>
     (\<forall>p\<in>set ps. mn' \<le> coord_sum p) \<and> mn' \<le> mn \<and>
     ((mn' = mn \<and> top_left' = top_left) \<or> (top_left' \<in> set ps \<and> coord_sum top_left' = mn')) \<and>
     (\<forall>p\<in>set ps. coord_sum p \<le> mx') \<and> mx \<le> mx' \<and>
     ((mx' = mx \<and> bottom_right' = bottom_right) \<or> (bottom_right' \<in> set ps \<and> coord_sum bottom_right' = mx'))"
proof (induction ps arbitrary: mn mx top_left bottom_right)
  case Nil
  then show ?case by simp
next
  case (Cons p ps)
  let ?mn = "if px p + py p < mn then px p + py p else mn"
  let ?mx = "if px p + py p > mx then px p + py p else mx"
  let ?tl = "if px p + py p < mn then p else top_left"
  let ?br = "if px p + py p > mx then p else bottom_right"
  from Cons.prems
  have run: "foldl corner_step (?mn, ?mx, ?tl, ?br) ps = (mn', mx', top_left', bottom_right')"
    by (simp add: corner_step_simp)
  note ih = Cons.IH [OF run]
  from ih have lo: "mn' \<le> ?mn" and hi: "?mx \<le> mx'" by simp_all
  have "mn' \<le> coord_sum p" using lo by (simp add: coord_sum_def split: if_splits)
  moreover have "coord_sum p \<le> mx'" using hi by (simp add: coord_sum_def split: if_splits)
  moreover have "mn' \<le> mn" using lo by (simp split: if_splits)
  moreover have "mx \<le> mx'" using hi by (simp split: if_splits)
  moreover have "(mn' = mn \<and> top_left' = top_left) \<or> (top_left' \<in> set (p # ps) \<and> coord_sum top_left' = mn')"
    using ih by (auto simp: coord_sum_def split: if_splits)
  moreover have "(mx' = mx \<and> bottom_right' = bottom_right) \<or> (bottom_right' \<in> set (p # ps) \<and> coord_sum bottom_right' = mx')"
    using ih by (auto simp: coord_sum_def split: if_splits)
  ultimately show ?case using ih by simp
qed

lemma Rect_of_points_ordered:
  "px a \<le> px b \<Longrightarrow> py a \<le> py b \<Longrightarrow>
     rect_tl (Rect_of_points a b) = a \<and> rect_br (Rect_of_points a b) = b"
  by (cases a; cases b) (simp add: Rect_of_points_def rect_tl_def rect_br_def)

text \<open>
  Claim C1, as amended. For 4 selected points with non-negative coordinates whose sums are
  below \<^verbatim>\<open>INT_MAX\<close>, the loop picks a point of minimal x+y as \<^verbatim>\<open>top_left\<close> and a point
  of maximal x+y as \<^verbatim>\<open>bottom_right\<close>, and the ROI box is \<^verbatim>\<open>cv::Rect(top_left,
  bottom_right)\<close>. These two points are the top-left and bottom-right corners of the box
  whenever \<^verbatim>\<open>top_left\<close> is neither to the right of nor below \<^verbatim>\<open>bottom_right\<close>.
\<close>

theorem roi_box_corners:
  assumes len: "length pts = 4"
    and rng: "\<forall>p\<in>set pts. 0 \<le> px p \<and> 0 \<le> py p \<and> px p + py p < INT_MAX"
  shows "\<exists>top_left bottom_right.
           roi_corners pts = (top_left, bottom_right) \<and>
           roi_box_of pts = Rect_of_points top_left bottom_right \<and>
           top_left \<in> set pts \<and> (\<forall>p\<in>set pts. coord_sum top_left \<le> coord_sum p) \<and>
           bottom_right \<in> set pts \<and> (\<forall>p\<in>set pts. coord_sum p \<le> coord_sum bottom_right) \<and>
           (px top_left \<le> px bottom_right \<and> py top_left \<le> py bottom_right \<longrightarrow>
              rect_tl (roi_box_of pts) = top_left \<and> rect_br (roi_box_of pts) = bottom_right)"
proof -
  obtain mn' mx' top_left bottom_right where
    run: "foldl corner_step (INT_MAX, 0, Point_default, Point_default) pts =
            (mn', mx', top_left, bottom_right)"
    by (metis prod_cases4)
  note inv = corner_loop_invariant [OF run]
  from len obtain q where q: "q \<in> set pts" by (cases pts) auto
  have corners: "roi_corners pts = (top_left, bottom_right)" by (simp add: roi_corners_def run)
  have box: "roi_box_of pts = Rect_of_points top_left bottom_right"
    by (simp add: roi_box_of_def corners)
  have "mn' \<le> coord_sum q" using inv q by blast
  moreover have "coord_sum q < INT_MAX" using rng q by (simp add: coord_sum_def)
  ultimately have "mn' \<noteq> INT_MAX" by simp
  with inv have tlp: "top_left \<in> set pts" "coord_sum top_left = mn'" by auto
  have tl_min: "\<forall>p\<in>set pts. coord_sum top_left \<le> coord_sum p" using inv tlp by simp
  have brp: "bottom_right \<in> set pts \<and> coord_sum bottom_right = mx'"
  proof (cases "mx' = 0 \<and> bottom_right = Point_default")
    case True
    have "coord_sum q \<le> 0" using inv q True by auto
    moreover have "0 \<le> px q" "0 \<le> py q" using rng q by auto
    ultimately have "px q = 0" "py q = 0" by (simp_all add: coord_sum_def)
    then have "q = Point_default" by (cases q) (simp add: Point_default_def)
    with q True show ?thesis by (simp add: Point_default_def coord_sum_def)
  next
    case False
    with inv show ?thesis by auto
  qed
  then have br_max: "\<forall>p\<in>set pts. coord_sum p \<le> coord_sum bottom_right" using inv by simp
  show ?thesis
    using corners box tlp(1) tl_min brp br_max Rect_of_points_ordered [of top_left bottom_right]
    by auto
qed

text \<open>
  The spec's scenario: the clicks (10,10), (10,50), (50,10), (50,50) give the box with
  top-left (10,10) and bottom-right (50,50).
\<close>

theorem roi_box_corners_witness:
  "length square_clicks = 4 \<and>
   list_all (\<lambda>p. 0 \<le> px p \<and> 0 \<le> py p \<and> px p + py p < INT_MAX) square_clicks \<and>
   roi_corners square_clicks = (Point 10 10, Point 50 50) \<and>
   rect_tl (roi_box_of square_clicks) = Point 10 10 \<and>
   rect_br (roi_box_of square_clicks) = Point 50 50"
proof -
  have len: "length square_clicks = 4"
    by (simp add: square_clicks_def)
  have rng: "\<forall>p\<in>set square_clicks. 0 \<le> px p \<and> 0 \<le> py p \<and> px p + py p < INT_MAX"
    by (simp add: square_clicks_def INT_MAX_def)
  have corners: "roi_corners square_clicks = (Point 10 10, Point 50 50)"
    by (simp add: square_clicks_def roi_corners_def corner_step_simp INT_MAX_def Point_default_def)
  from roi_box_corners [OF len rng] corners
  have "rect_tl (roi_box_of square_clicks) = Point 10 10 \<and>
        rect_br (roi_box_of square_clicks) = Point 50 50"
    by auto
  with len rng corners show ?thesis by (simp add: list_all_iff)
qed

text \<open>
  Claim C1 as stated fails on a quadrilateral that leans to the left: the clicks (40,0),
  (50,5), (10,100), (0,95) have the sums 40, 55, 110, 95, so \<^verbatim>\<open>top_left\<close> is (40,0) and
  \<^verbatim>\<open>bottom_right\<close> is (10,100); the box built from them has the corners (10,0) and
  (40,100), neither of which is one of the 4 points.
\<close>

theorem roi_box_corner_counterexample:
  "map coord_sum leaning_clicks = [40, 55, 110, 95] \<and>
   roi_corners leaning_clicks = (Point 40 0, Point 10 100) \<and>
   roi_box_of leaning_clicks = Rect 10 0 30 100 \<and>
   rect_tl (roi_box_of leaning_clicks) = Point 10 0 \<and>
   rect_br (roi_box_of leaning_clicks) = Point 40 100 \<and>
   rect_tl (roi_box_of leaning_clicks) \<notin> set leaning_clicks \<and>
   rect_br (roi_box_of leaning_clicks) \<notin> set leaning_clicks"
  by (simp add: leaning_clicks_def coord_sum_def roi_box_of_def roi_corners_def corner_step_simp
      INT_MAX_def Point_default_def Rect_of_points_def rect_tl_def rect_br_def)

section \<open>Properties of the building blocks\<close>

lemma emit_fields [simp]:
  "log (emit a st) = log st @ [a]" "mats (emit a st) = mats st" "nalloc (emit a st) = nalloc st"
  "roi_points (emit a st) = roi_points st" "input_mode (emit a st) = input_mode st"
  "roi_box (emit a st) = roi_box st" "roi_hist (emit a st) = roi_hist st"
  by (simp_all add: emit_def)

lemma imshow_frame_fields [simp]:
  "log (imshow_frame st) = log st @ [Imshow (mats st frame_addr)]"
  "mats (imshow_frame st) = mats st" "nalloc (imshow_frame st) = nalloc st"
  "roi_points (imshow_frame st) = roi_points st" "input_mode (imshow_frame st) = input_mode st"
  "roi_box (imshow_frame st) = roi_box st" "roi_hist (imshow_frame st) = roi_hist st"
  by (simp_all add: imshow_frame_def)

lemma log_growsI: "log st' = log st @ new \<Longrightarrow> \<forall>a\<in>set new. P a \<Longrightarrow> log_grows P st st'"
  by (simp add: log_grows_def list_all_iff)

lemma log_growsD: "log_grows P st st' \<Longrightarrow> \<exists>new. log st' = log st @ new \<and> (\<forall>a\<in>set new. P a)"
  unfolding log_grows_def list_all_iff
  by (metis append_take_drop_id)

lemma log_grows_refl [simp]: "log_grows P st st"
  by (simp add: log_grows_def)

lemma log_grows_trans: "log_grows P st st' \<Longrightarrow> log_grows P st' st'' \<Longrightarrow> log_grows P st st''"
proof -
  assume "log_grows P st st'" and "log_grows P st' st''"
  then obtain n1 n2 where "log st' = log st @ n1" "\<forall>a\<in>set n1. P a"
    "log st'' = log st' @ n2" "\<forall>a\<in>set n2. P a"
    by (blast dest: log_growsD)
  then show ?thesis by (intro log_growsI [where new = "n1 @ n2"]) auto
qed

lemma log_grows_mono: "log_grows P st st' \<Longrightarrow> (\<And>a. P a \<Longrightarrow> Q a) \<Longrightarrow> log_grows Q st st'"
  by (auto simp: log_grows_def list_all_iff)

lemma log_grows_same_log: "log st' = log st \<Longrightarrow> log_grows P st st'"
  by (simp add: log_grows_def)

lemma log_grows_cong_left: "log st0 = log st \<Longrightarrow> log_grows P st st' \<Longrightarrow> log_grows P st0 st'"
  by (simp add: log_grows_def)

subsection \<open>The mouse callback\<close>

lemma select_roi_full: "\<not> length (roi_points st) < 4 \<Longrightarrow> select_roi lib ev st = st"
  by (simp add: select_roi_def split: prod.splits)

lemma select_roi_fields [simp]:
  "nalloc (select_roi lib ev st) = nalloc st" "input_mode (select_roi lib ev st) = input_mode st"
  "roi_box (select_roi lib ev st) = roi_box st" "roi_hist (select_roi lib ev st) = roi_hist st"
  by (simp_all add: select_roi_def split: prod.splits)

lemma select_roi_mats_other: "a \<noteq> frame_addr \<Longrightarrow> mats (select_roi lib ev st) a = mats st a"
  by (simp add: select_roi_def split: prod.splits)

lemma select_roi_length: "length (roi_points st) \<le> 4 \<Longrightarrow> length (roi_points (select_roi lib ev st)) \<le> 4"
  by (simp add: select_roi_def split: prod.splits)

lemma select_roi_log: "log_grows (\<lambda>a. \<exists>m. a = Imshow m) st (select_roi lib ev st)"
  by (auto simp: select_roi_def log_grows_def split: prod.splits)

subsection \<open>Dispatching the events of one waitKey\<close>

lemma dispatch_full:
  "\<not> length (roi_points st) < 4 \<Longrightarrow> foldl (\<lambda>s ev. select_roi lib ev s) st evs = st"
  by (induction evs) (simp_all add: select_roi_full)

lemma dispatch_fields [simp]:
  "nalloc (foldl (\<lambda>s ev. select_roi lib ev s) st evs) = nalloc st"
  "input_mode (foldl (\<lambda>s ev. select_roi lib ev s) st evs) = input_mode st"
  "roi_box (foldl (\<lambda>s ev. select_roi lib ev s) st evs) = roi_box st"
  "roi_hist (foldl (\<lambda>s ev. select_roi lib ev s) st evs) = roi_hist st"
  by (induction evs arbitrary: st) simp_all

lemma dispatch_mats_other:
  "a \<noteq> frame_addr \<Longrightarrow> mats (foldl (\<lambda>s ev. select_roi lib ev s) st evs) a = mats st a"
  by (induction evs arbitrary: st) (simp_all add: select_roi_mats_other)

lemma dispatch_length:
  "length (roi_points st) \<le> 4 \<Longrightarrow> length (roi_points (foldl (\<lambda>s ev. select_roi lib ev s) st evs)) \<le> 4"
  by (induction evs arbitrary: st) (simp_all add: select_roi_length)

lemma dispatch_log:
  "log_grows (\<lambda>a. \<exists>m. a = Imshow m) st (foldl (\<lambda>s ev. select_roi lib ev s) st evs)"
proof (induction evs arbitrary: st)
  case Nil
  show ?case by simp
next
  case (Cons ev evs)
  show ?case using log_grows_trans [OF select_roi_log Cons.IH] by simp
qed

subsection \<open>One wait for a key\<close>

lemma waitKey_full:
  "\<not> length (roi_points st) < 4 \<Longrightarrow> snd (waitKey lib d w st) = emit (WaitKey d) st"
  by (simp add: waitKey_def dispatch_full)

lemma waitKey_fields [simp]:
  "nalloc (snd (waitKey lib d w st)) = nalloc st"
  "input_mode (snd (waitKey lib d w st)) = input_mode st"
  "roi_box (snd (waitKey lib d w st)) = roi_box st"
  "roi_hist (snd (waitKey lib d w st)) = roi_hist st"
  by (simp_all add: waitKey_def)

lemma waitKey_mats_other: "a \<noteq> frame_addr \<Longrightarrow> mats (snd (waitKey lib d w st)) a = mats st a"
  by (simp add: waitKey_def dispatch_mats_other)

lemma waitKey_length:
  "length (roi_points st) \<le> 4 \<Longrightarrow> length (roi_points (snd (waitKey lib d w st))) \<le> 4"
  by (simp add: waitKey_def dispatch_length)

lemma waitKey_log:
  "log_grows (\<lambda>a. (\<exists>m. a = Imshow m) \<or> a = WaitKey d) st (snd (waitKey lib d w st))"
proof -
  have "log_grows (\<lambda>a. (\<exists>m. a = Imshow m) \<or> a = WaitKey d) st (emit (WaitKey d) st)"
    by (rule log_growsI [where new = "[WaitKey d]"]) simp_all
  moreover have "log_grows (\<lambda>a. (\<exists>m. a = Imshow m) \<or> a = WaitKey d) (emit (WaitKey d) st)
                   (snd (waitKey lib d w st))"
    unfolding waitKey_def snd_conv by (rule log_grows_mono [OF dispatch_log]) simp
  ultimately show ?thesis by (rule log_grows_trans)
qed

subsection \<open>The selection\<close>

lemma selection_loop_props:
  "selection_loop lib ws st = (st', r) \<Longrightarrow>
     nalloc st' = nalloc st \<and> input_mode st' = input_mode st \<and> roi_box st' = roi_box st \<and>
     roi_hist st' = roi_hist st \<and> (\<forall>a. a \<noteq> frame_addr \<longrightarrow> mats st' a = mats st a) \<and>
     (length (roi_points st) \<le> 4 \<longrightarrow> length (roi_points st') \<le> 4) \<and>
     (r \<noteq> None \<longrightarrow> 4 \<le> length (roi_points st')) \<and>
     log_grows (\<lambda>a. (\<exists>m. a = Imshow m) \<or> a = WaitKey 0) st st'"
proof (induction ws arbitrary: st)
  case Nil
  then show ?case by (auto split: if_splits)
next
  case (Cons w ws)
  show ?case
  proof (cases "length (roi_points st) < 4")
    case False
    with Cons.prems show ?thesis by auto
  next
    case True
    let ?st1 = "snd (waitKey lib 0 w (imshow_frame st))"
    from True Cons.prems have run: "selection_loop lib ws ?st1 = (st', r)" by simp
    note ih = Cons.IH [OF run]
    have g1: "log_grows (\<lambda>a. (\<exists>m. a = Imshow m) \<or> a = WaitKey 0) st (imshow_frame st)"
      by (rule log_growsI [where new = "[Imshow (mats st frame_addr)]"]) simp_all
    have g2: "log_grows (\<lambda>a. (\<exists>m. a = Imshow m) \<or> a = WaitKey 0) st ?st1"
      by (rule log_grows_trans [OF g1 waitKey_log])
    have len: "length (roi_points ?st1) \<le> 4"
      using True by (intro waitKey_length) simp
    have other: "\<forall>a. a \<noteq> frame_addr \<longrightarrow> mats ?st1 a = mats st a"
      by (simp add: waitKey_mats_other)
    from ih g2 len other show ?thesis
      by (auto intro: log_grows_trans)
  qed
qed

lemma frame_roi_props:
  assumes "frame_roi lib ws st = (r, st', ws')"
  shows "roi_box st' = roi_box st" and "roi_hist st' = roi_hist st"
    and "length (roi_points st) \<le> 4 \<Longrightarrow> length (roi_points st') \<le> 4"
    and "r \<noteq> None \<Longrightarrow> 4 \<le> length (roi_points st')"
    and "log_grows (\<lambda>a. (\<exists>m. a = Imshow m) \<or> a = WaitKey 0) st st'"
    and "r = Some (h, b) \<Longrightarrow> b = roi_box_of (roi_points st') \<and>
           h = normalize_MINMAX lib
                 (calcHist lib (cvtColor_BGR2HSV lib (submat lib (mats st frame_addr) b)) 16 (0, 180))
                 0 255"
proof -
  let ?st0 = "st\<lparr>input_mode := True\<rparr>"
  let ?st1 = "?st0\<lparr>mats := (mats ?st0)(Suc (nalloc ?st0) := mats ?st0 frame_addr),
                    nalloc := Suc (nalloc ?st0)\<rparr>"
  obtain st2 r2 where loop: "selection_loop lib ws ?st1 = (st2, r2)"
    by (cases "selection_loop lib ws ?st1")
  note p = selection_loop_props [OF loop]
  from assms loop have st': "st' = st2"
    by (auto simp: frame_roi_def Let_def split: option.splits)
  from assms loop have r: "r \<noteq> None \<longleftrightarrow> r2 \<noteq> None"
    by (auto simp: frame_roi_def Let_def split: option.splits)
  show "roi_box st' = roi_box st" and "roi_hist st' = roi_hist st"
    using p st' by simp_all
  show "length (roi_points st) \<le> 4 \<Longrightarrow> length (roi_points st') \<le> 4"
    using p st' by simp
  show "r \<noteq> None \<Longrightarrow> 4 \<le> length (roi_points st')"
    using p st' r by simp
  have "log_grows (\<lambda>a. (\<exists>m. a = Imshow m) \<or> a = WaitKey 0) ?st1 st2"
    using p by simp
  then show "log_grows (\<lambda>a. (\<exists>m. a = Imshow m) \<or> a = WaitKey 0) st st'"
    unfolding st' by (rule log_grows_cong_left [rotated]) simp
  have copy: "mats st2 (Suc (nalloc st)) = mats st frame_addr"
    using p by (simp add: frame_addr_def)
  show "r = Some (h, b) \<Longrightarrow> b = roi_box_of (roi_points st') \<and>
           h = normalize_MINMAX lib
                 (calcHist lib (cvtColor_BGR2HSV lib (submat lib (mats st frame_addr) b)) 16 (0, 180))
                 0 255"
    using assms loop copy
    by (auto simp: frame_roi_def Let_def split: option.splits)
qed

lemma apply_camshift_fields [simp]:
  "nalloc (apply_camshift lib box tc hist st) = nalloc st"
  "input_mode (apply_camshift lib box tc hist st) = input_mode st"
  "roi_points (apply_camshift lib box tc hist st) = roi_points st"
  "roi_box (apply_camshift lib box tc hist st) = roi_box st"
  "roi_hist (apply_camshift lib box tc hist st) = roi_hist st"
  "log (apply_camshift lib box tc hist st) =
     log st @ [CamShiftCall (calcBackProject lib (cvtColor_BGR2HSV lib (mats st frame_addr)) hist hist)
                 box tc]"
  by (simp_all add: apply_camshift_def Let_def)

lemma turn_head_fields [simp]:
  "nalloc (turn_head lib tc f st) = nalloc st"
  "input_mode (turn_head lib tc f st) = input_mode st"
  "roi_points (turn_head lib tc f st) = roi_points st"
  "roi_box (turn_head lib tc f st) = roi_box st"
  "roi_hist (turn_head lib tc f st) = roi_hist st"
  by (simp_all add: turn_head_def Let_def)

lemma turn_head_log:
  "log (turn_head lib tc f st) =
     log st @ (if rect_empty (roi_box st) then [Imshow f]
               else [CamShiftCall (calcBackProject lib (cvtColor_BGR2HSV lib f) (roi_hist st) (roi_hist st))
                       (roi_box st) tc,
                     Imshow (polylines lib f
                       (boxPoints lib (fst (CamShift lib
                          (calcBackProject lib (cvtColor_BGR2HSV lib f) (roi_hist st) (roi_hist st))
                          (roi_box st) tc))))])"
  by (simp add: turn_head_def Let_def apply_camshift_def)

lemma main_iter_cases:
  assumes "main_iter lib tc f ws st = (fl, st', ws')"
  obtains
    (no_frame) "empty lib f" "fl = Break" "st' = st\<lparr>mats := (mats st)(frame_addr := f)\<rparr>" "ws' = ws"
  | (starved) "\<not> empty lib f" "ws = []" "fl = Starved" "st' = turn_head lib tc f st" "ws' = []"
  | (selecting) w rest k st4 r st5 where "\<not> empty lib f" "ws = w # rest"
      "waitKey lib 1 w (turn_head lib tc f st) = (k, st4)"
      "(ucast k :: 8 word) = 105" "length (roi_points st4) < 4"
      "frame_roi lib rest st4 = (r, st5, ws')"
      "r = None \<and> fl = Starved \<and> st' = st5 \<or>
       (\<exists>h b. r = Some (h, b) \<and> fl = Next \<and> st' = st5\<lparr>roi_hist := h, roi_box := b\<rparr>)"
  | (quit) w k where "\<not> empty lib f" "ws = w # ws'"
      "waitKey lib 1 w (turn_head lib tc f st) = (k, st')"
      "\<not> ((ucast k :: 8 word) = 105 \<and> length (roi_points st') < 4)"
      "(ucast k :: 8 word) = 113" "fl = Break"
  | (continue) w k where "\<not> empty lib f" "ws = w # ws'"
      "waitKey lib 1 w (turn_head lib tc f st) = (k, st')"
      "\<not> ((ucast k :: 8 word) = 105 \<and> length (roi_points st') < 4)"
      "(ucast k :: 8 word) \<noteq> 113" "fl = Next"
proof (cases "empty lib f")
  case True
  with assms show ?thesis by (intro no_frame) (auto simp: main_iter_def Let_def)
next
  case False
  note nonempty = this
  have head_nil: "main_iter lib tc f [] st = (Starved, turn_head lib tc f st, [])"
    using False by (simp add: main_iter_def turn_head_def Let_def)
  have head: "main_iter lib tc f (w # rest) st =
      (case waitKey lib 1 w (turn_head lib tc f st) of (k, st) \<Rightarrow>
         let key = (ucast k :: 8 word)
         in if key = 105 \<and> length (roi_points st) < 4 then
              (case frame_roi lib rest st of
                 (None, st, ws) \<Rightarrow> (Starved, st, ws)
               | (Some (h, b), st, ws) \<Rightarrow> (Next, st\<lparr>roi_hist := h, roi_box := b\<rparr>, ws))
            else if key = 113 then (Break, st, rest)
            else (Next, st, rest))" for w rest
    using False by (simp add: main_iter_def turn_head_def Let_def)
  show ?thesis
  proof (cases ws)
    case Nil
    with assms head_nil nonempty show ?thesis by (intro starved) auto
  next
    case (Cons w rest)
    obtain k st4 where wk: "waitKey lib 1 w (turn_head lib tc f st) = (k, st4)"
      by (cases "waitKey lib 1 w (turn_head lib tc f st)")
    show ?thesis
    proof (cases "(ucast k :: 8 word) = 105 \<and> length (roi_points st4) < 4")
      case True
      obtain r st5 ws5 where fr: "frame_roi lib rest st4 = (r, st5, ws5)"
        by (cases "frame_roi lib rest st4")
      from assms head Cons wk True fr
      have "ws' = ws5" and "r = None \<and> fl = Starved \<and> st' = st5 \<or>
         (\<exists>h b. r = Some (h, b) \<and> fl = Next \<and> st' = st5\<lparr>roi_hist := h, roi_box := b\<rparr>)"
        by (auto simp: Let_def split: option.splits)
      with nonempty Cons wk True fr show ?thesis by (intro selecting [of w rest k st4 r st5]) auto
    next
      case False
      show ?thesis
      proof (cases "(ucast k :: 8 word) = 113")
        case True
        with assms head Cons wk False nonempty show ?thesis
          by (intro quit [of w k]) (auto simp: Let_def)
      next
        case notq: False
        with assms head Cons wk False nonempty show ?thesis
          by (intro continue [of w k]) (auto simp: Let_def)
      qed
    qed
  qed
qed

subsection \<open>One turn of the main loop\<close>

lemma main_iter_no_frame:
  "empty lib f \<Longrightarrow>
     main_iter lib tc f ws st = (Break, st\<lparr>mats := (mats st)(frame_addr := f)\<rparr>, ws)"
  by (simp add: main_iter_def Let_def)

lemma main_iter_frozen:
  assumes run: "main_iter lib tc f ws st = (fl, st', ws')"
    and full: "4 \<le> length (roi_points st)"
  shows "roi_points st' = roi_points st" and "roi_box st' = roi_box st"
    and "roi_hist st' = roi_hist st" and "nalloc st' = nalloc st"
    and "log st' = log st \<or> log st' = log (turn_head lib tc f st) \<or>
         log st' = log (turn_head lib tc f st) @ [WaitKey 1]"
proof -
  have stay: "snd (waitKey lib 1 w (turn_head lib tc f st)) = emit (WaitKey 1) (turn_head lib tc f st)"
    for w using full by (intro waitKey_full) simp
  from run have "roi_points st' = roi_points st \<and> roi_box st' = roi_box st \<and>
      roi_hist st' = roi_hist st \<and> nalloc st' = nalloc st \<and>
      (log st' = log st \<or> log st' = log (turn_head lib tc f st) \<or>
       log st' = log (turn_head lib tc f st) @ [WaitKey 1])"
  proof (cases rule: main_iter_cases)
    case no_frame
    then show ?thesis by simp
  next
    case starved
    then show ?thesis by simp
  next
    case (selecting w rest k st4 r st5)
    from selecting(3) stay [of w] have "st4 = emit (WaitKey 1) (turn_head lib tc f st)" by simp
    with selecting(5) full show ?thesis by simp
  next
    case (quit w k)
    from quit(3) stay [of w] have "st' = emit (WaitKey 1) (turn_head lib tc f st)" by simp
    then show ?thesis by simp
  next
    case (continue w k)
    from continue(3) stay [of w] have "st' = emit (WaitKey 1) (turn_head lib tc f st)" by simp
    then show ?thesis by simp
  qed
  then show "roi_points st' = roi_points st" and "roi_box st' = roi_box st"
    and "roi_hist st' = roi_hist st" and "nalloc st' = nalloc st"
    and "log st' = log st \<or> log st' = log (turn_head lib tc f st) \<or>
         log st' = log (turn_head lib tc f st) @ [WaitKey 1]"
    by simp_all
qed

lemma turn_head_log_grows:
  "log_grows (\<lambda>a. a = Imshow f \<and> rect_empty (roi_box st) \<or>
                 \<not> rect_empty (roi_box st) \<and>
                   ((\<exists>m. a = Imshow m) \<or> (\<exists>bp. a = CamShiftCall bp (roi_box st) tc)))
     st (turn_head lib tc f st)"
  by (rule log_growsI [OF turn_head_log]) auto

lemma main_iter_frozen_log:
  assumes run: "main_iter lib tc f ws st = (fl, st', ws')"
    and full: "4 \<le> length (roi_points st)"
  shows "log_grows (\<lambda>a. a = WaitKey 1 \<or> a = Imshow f \<and> rect_empty (roi_box st) \<or>
                       \<not> rect_empty (roi_box st) \<and>
                         ((\<exists>m. a = Imshow m) \<or> (\<exists>bp. a = CamShiftCall bp (roi_box st) tc)))
           st st'"
    (is "log_grows ?P st st'")
proof -
  have head: "log_grows ?P st (turn_head lib tc f st)"
    by (rule log_grows_mono [OF turn_head_log_grows]) auto
  have key: "log_grows ?P (turn_head lib tc f st) (emit (WaitKey 1) (turn_head lib tc f st))"
    by (rule log_growsI [where new = "[WaitKey 1]"]) simp_all
  from main_iter_frozen(5) [OF run full]
  consider "log st' = log st" | "log st' = log (turn_head lib tc f st)"
    | "log st' = log (emit (WaitKey 1) (turn_head lib tc f st))" by auto
  then show ?thesis
  proof cases
    case 1
    then show ?thesis by (rule log_grows_same_log)
  next
    case 2
    with head show ?thesis by (simp add: log_grows_def)
  next
    case 3
    with log_grows_trans [OF head key] show ?thesis by (simp add: log_grows_def)
  qed
qed

lemma main_iter_log:
  assumes run: "main_iter lib tc f ws st = (fl, st', ws')"
  shows "log_grows (\<lambda>a. (\<exists>m. a = Imshow m) \<or> (\<exists>d. a = WaitKey d) \<or>
                       \<not> rect_empty (roi_box st) \<and> (\<exists>bp. a = CamShiftCall bp (roi_box st) tc))
           st st'"
    (is "log_grows ?P st st'")
proof -
  have head: "log_grows ?P st (turn_head lib tc f st)"
    by (rule log_grows_mono [OF turn_head_log_grows]) auto
  have key: "log_grows ?P (turn_head lib tc f st) (snd (waitKey lib 1 w (turn_head lib tc f st)))" for w
    by (rule log_grows_mono [OF waitKey_log]) auto
  note both = log_grows_trans [OF head key]
  from run show ?thesis
  proof (cases rule: main_iter_cases)
    case no_frame
    then show ?thesis by (simp add: log_grows_def)
  next
    case starved
    with head show ?thesis by simp
  next
    case (selecting w rest k st4 r st5)
    from selecting(3) both [of w] have a: "log_grows ?P st st4" by simp
    have "log_grows ?P st4 st5"
      by (rule log_grows_mono [OF frame_roi_props(5) [OF selecting(6)]]) auto
    with a have "log_grows ?P st st5" by (rule log_grows_trans)
    moreover have "log st' = log st5" using selecting(7) by auto
    ultimately show ?thesis by (simp add: log_grows_def)
  next
    case (quit w k)
    from quit(3) both [of w] show ?thesis by simp
  next
    case (continue w k)
    from continue(3) both [of w] show ?thesis by simp
  qed
qed

lemma main_iter_box_inv:
  assumes run: "main_iter lib tc f ws st = (fl, st', ws')" and inv: "box_inv st"
  shows "box_inv st'"
proof (cases "4 \<le> length (roi_points st)")
  case True
  from main_iter_frozen(1,2) [OF run True] inv show ?thesis by (simp add: box_inv_def)
next
  case False
  with inv have idle: "rect_empty (roi_box st)" by (simp add: box_inv_def)
  from run show ?thesis
  proof (cases rule: main_iter_cases)
    case no_frame
    with idle show ?thesis by (simp add: box_inv_def)
  next
    case starved
    with idle show ?thesis by (simp add: box_inv_def)
  next
    case (selecting w rest k st4 r st5)
    have box4: "roi_box st4 = roi_box st"
      using selecting(3) waitKey_fields(3) [of lib 1 w "turn_head lib tc f st"] by simp
    note fr = frame_roi_props [OF selecting(6)]
    from selecting(7) show ?thesis
    proof
      assume "r = None \<and> fl = Starved \<and> st' = st5"
      with fr(1) box4 idle show ?thesis by (simp add: box_inv_def)
    next
      assume "\<exists>h b. r = Some (h, b) \<and> fl = Next \<and> st' = st5\<lparr>roi_hist := h, roi_box := b\<rparr>"
      then obtain h b where r: "r = Some (h, b)" and st': "st' = st5\<lparr>roi_hist := h, roi_box := b\<rparr>"
        by blast
      from fr(4) r have "4 \<le> length (roi_points st5)" by simp
      moreover from fr(6) [OF r] have "b = roi_box_of (roi_points st5)" by simp
      ultimately show ?thesis by (simp add: box_inv_def st')
    qed
  next
    case (quit w k)
    from quit(3) waitKey_fields(3) [of lib 1 w "turn_head lib tc f st"] idle
    show ?thesis by (simp add: box_inv_def)
  next
    case (continue w k)
    from continue(3) waitKey_fields(3) [of lib 1 w "turn_head lib tc f st"] idle
    show ?thesis by (simp add: box_inv_def)
  qed
qed

lemma main_iter_length:
  assumes run: "main_iter lib tc f ws st = (fl, st', ws')" and le: "length (roi_points st) \<le> 4"
  shows "length (roi_points st') \<le> 4"
proof -
  have key: "length (roi_points (snd (waitKey lib 1 w (turn_head lib tc f st)))) \<le> 4" for w
    using le by (intro waitKey_length) simp
  from run show ?thesis
  proof (cases rule: main_iter_cases)
    case no_frame
    with le show ?thesis by simp
  next
    case starved
    with le show ?thesis by simp
  next
    case (selecting w rest k st4 r st5)
    from selecting(3) key [of w] have "length (roi_points st4) \<le> 4" by simp
    from frame_roi_props(3) [OF selecting(6) this] selecting(7) show ?thesis by auto
  next
    case (quit w k)
    from quit(3) key [of w] show ?thesis by simp
  next
    case (continue w k)
    from continue(3) key [of w] show ?thesis by simp
  qed
qed

subsection \<open>The main loop\<close>

lemma main_loop_Cons:
  "main_iter lib tc f ws st = (fl, st1, ws1) \<Longrightarrow>
     main_loop lib tc (f # fs) ws st =
       (case fl of Next \<Rightarrow> main_loop lib tc fs ws1 st1 | Break \<Rightarrow> (st1, Exited)
        | Starved \<Rightarrow> (st1, Waiting))"
  by (cases fl) simp_all

lemma main_loop_frozen:
  "main_loop lib tc fs ws st = (st', s) \<Longrightarrow> 4 \<le> length (roi_points st) \<Longrightarrow>
     roi_points st' = roi_points st \<and> roi_box st' = roi_box st \<and> roi_hist st' = roi_hist st \<and>
     nalloc st' = nalloc st \<and>
     log_grows (\<lambda>a. a = WaitKey 1 \<or> (\<exists>f\<in>set fs. a = Imshow f) \<and> rect_empty (roi_box st) \<or>
                    \<not> rect_empty (roi_box st) \<and>
                      ((\<exists>m. a = Imshow m) \<or> (\<exists>bp. a = CamShiftCall bp (roi_box st) tc)))
       st st'"
proof (induction fs arbitrary: ws st)
  case Nil
  then show ?case by simp
next
  case (Cons f fs)
  obtain fl st1 ws1 where it: "main_iter lib tc f ws st = (fl, st1, ws1)"
    by (cases "main_iter lib tc f ws st")
  note fz = main_iter_frozen [OF it Cons.prems(2)]
  let ?P = "\<lambda>a. a = WaitKey 1 \<or> (\<exists>g\<in>set (f # fs). a = Imshow g) \<and> rect_empty (roi_box st) \<or>
                    \<not> rect_empty (roi_box st) \<and>
                      ((\<exists>m. a = Imshow m) \<or> (\<exists>bp. a = CamShiftCall bp (roi_box st) tc))"
  have g1: "log_grows ?P st st1"
    by (rule log_grows_mono [OF main_iter_frozen_log [OF it Cons.prems(2)]]) auto
  show ?case
  proof (cases fl)
    case Next
    with Cons.prems(1) it have run: "main_loop lib tc fs ws1 st1 = (st', s)"
      by (simp add: main_loop_Cons)
    have full1: "4 \<le> length (roi_points st1)" using fz(1) Cons.prems(2) by simp
    note ih = Cons.IH [OF run full1]
    from ih have ih_log:
      "log_grows (\<lambda>a. a = WaitKey 1 \<or> (\<exists>g\<in>set fs. a = Imshow g) \<and> rect_empty (roi_box st1) \<or>
                    \<not> rect_empty (roi_box st1) \<and>
                      ((\<exists>m. a = Imshow m) \<or> (\<exists>bp. a = CamShiftCall bp (roi_box st1) tc)))
         st1 st'" by simp
    have "log_grows ?P st1 st'"
      by (rule log_grows_mono [OF ih_log]) (use fz(2) in auto)
    with g1 have "log_grows ?P st st'" by (rule log_grows_trans)
    with ih fz show ?thesis by simp
  next
    case Break
    with Cons.prems(1) it have "st' = st1" by (simp add: main_loop_Cons)
    with fz g1 show ?thesis by simp
  next
    case Starved
    with Cons.prems(1) it have "st' = st1" by (simp add: main_loop_Cons)
    with fz g1 show ?thesis by simp
  qed
qed

lemma main_loop_log:
  "main_loop lib tc fs ws st = (st', s) \<Longrightarrow> box_inv st \<Longrightarrow>
     box_inv st' \<and>
     log_grows (\<lambda>a. (\<exists>m. a = Imshow m) \<or> (\<exists>d. a = WaitKey d) \<or>
                    (\<exists>bp. a = CamShiftCall bp (roi_box st') tc) \<and> \<not> rect_empty (roi_box st') \<and>
                      roi_box st' = roi_box_of (roi_points st'))
       st st'"
proof (induction fs arbitrary: ws st)
  case Nil
  then show ?case by simp
next
  case (Cons f fs)
  obtain fl st1 ws1 where it: "main_iter lib tc f ws st = (fl, st1, ws1)"
    by (cases "main_iter lib tc f ws st")
  note inv1 = main_iter_box_inv [OF it Cons.prems(2)]
  note g0 = main_iter_log [OF it]
  let ?P = "\<lambda>a. (\<exists>m. a = Imshow m) \<or> (\<exists>d. a = WaitKey d) \<or>
                    (\<exists>bp. a = CamShiftCall bp (roi_box st') tc) \<and> \<not> rect_empty (roi_box st') \<and>
                      roi_box st' = roi_box_of (roi_points st')"
  have rest: "main_loop lib tc (case fl of Next \<Rightarrow> fs | _ \<Rightarrow> []) ws1 st1 = (st', s) \<or> st' = st1"
    using Cons.prems(1) it by (cases fl) (simp_all add: main_loop_Cons)
  have keep: "roi_box st' = roi_box st \<and> roi_points st' = roi_points st"
    if full: "4 \<le> length (roi_points st)"
  proof -
    note fz = main_iter_frozen(1,2) [OF it full]
    from rest show ?thesis
    proof
      assume "st' = st1"
      with fz show ?thesis by simp
    next
      assume run: "main_loop lib tc (case fl of Next \<Rightarrow> fs | _ \<Rightarrow> []) ws1 st1 = (st', s)"
      have "4 \<le> length (roi_points st1)" using fz full by simp
      from main_loop_frozen [OF run this] fz show ?thesis by simp
    qed
  qed
  have g1: "log_grows ?P st st1"
  proof (rule log_grows_mono [OF g0])
    fix a
    assume a: "(\<exists>m. a = Imshow m) \<or> (\<exists>d. a = WaitKey d) \<or>
               \<not> rect_empty (roi_box st) \<and> (\<exists>bp. a = CamShiftCall bp (roi_box st) tc)"
    show "?P a"
    proof (cases "rect_empty (roi_box st)")
      case True
      with a show ?thesis by auto
    next
      case False
      with Cons.prems(2) have "4 \<le> length (roi_points st)" "roi_box st = roi_box_of (roi_points st)"
        by (simp_all add: box_inv_def)
      with keep False a show ?thesis by auto
    qed
  qed
  show ?case
  proof (cases fl)
    case Next
    with Cons.prems(1) it have run: "main_loop lib tc fs ws1 st1 = (st', s)"
      by (simp add: main_loop_Cons)
    from Cons.IH [OF run inv1] g1 show ?thesis by (auto intro: log_grows_trans)
  next
    case Break
    with Cons.prems(1) it have "st' = st1" by (simp add: main_loop_Cons)
    with inv1 g1 show ?thesis by simp
  next
    case Starved
    with Cons.prems(1) it have "st' = st1" by (simp add: main_loop_Cons)
    with inv1 g1 show ?thesis by simp
  qed
qed

lemma main_loop_after_no_frame:
  "empty lib f \<Longrightarrow> main_loop lib tc (pre @ f # fs) ws st = main_loop lib tc (pre @ [f]) ws st"
proof (induction pre arbitrary: ws st)
  case Nil
  then show ?case by (simp add: main_iter_no_frame)
next
  case (Cons p pre)
  obtain fl st1 ws1 where it: "main_iter lib tc p ws st = (fl, st1, ws1)"
    by (cases "main_iter lib tc p ws st")
  show ?case using Cons.IH [OF Cons.prems] by (cases fl) (simp_all add: it)
qed

section \<open>Runs of the program\<close>

lemma main_loop_length:
  "main_loop lib tc fs ws st = (st', s) \<Longrightarrow> length (roi_points st) \<le> 4 \<Longrightarrow>
     length (roi_points st') \<le> 4"
proof (induction fs arbitrary: ws st)
  case Nil
  then show ?case by simp
next
  case (Cons f fs)
  obtain fl st1 ws1 where it: "main_iter lib tc f ws st = (fl, st1, ws1)"
    by (cases "main_iter lib tc f ws st")
  note le1 = main_iter_length [OF it Cons.prems(2)]
  show ?case
  proof (cases fl)
    case Next
    with Cons.prems(1) it have "main_loop lib tc fs ws1 st1 = (st', s)"
      by (simp add: main_loop_Cons)
    from Cons.IH [OF this le1] show ?thesis .
  next
    case Break
    with Cons.prems(1) it le1 show ?thesis by (simp add: main_loop_Cons)
  next
    case Starved
    with Cons.prems(1) it le1 show ?thesis by (simp add: main_loop_Cons)
  qed
qed

lemma main_unfold:
  "main lib parser frames ws =
     (case main_loop lib (TermCriteria (TermCriteria_EPS OR TermCriteria_COUNT) 10 1) frames ws
             (main_entry lib parser) of
        (st, Exited) \<Rightarrow> (emit DestroyAllWindows (emit CameraRelease st), Some 0)
      | (st, Waiting) \<Rightarrow> (st, None))"
  by (simp add: main_def main_entry_def Let_def split: prod.splits)

lemma main_entry_fields:
  "roi_box (main_entry lib parser) = Rect_default" "roi_points (main_entry lib parser) = []"
  "\<forall>a\<in>set (log (main_entry lib parser)). \<not> is_camshift a"
  by (auto simp: main_entry_def get_arguments_def init_state_def Let_def emit_def)

lemma main_points_bound: "length (roi_points (fst (main lib parser frames ws))) \<le> 4"
proof -
  let ?tc = "TermCriteria (TermCriteria_EPS OR TermCriteria_COUNT) 10 1"
  obtain st' s where run: "main_loop lib ?tc frames ws (main_entry lib parser) = (st', s)"
    by (cases "main_loop lib ?tc frames ws (main_entry lib parser)")
  from main_loop_length [OF run] have "length (roi_points st') \<le> 4"
    by (simp add: main_entry_fields)
  with run show ?thesis by (cases s) (simp_all add: main_unfold)
qed

lemma main_camshift_calls:
  assumes a: "a \<in> set (log (fst (main lib parser frames ws)))" and cam: "is_camshift a"
  shows "\<exists>bp. a = CamShiftCall bp (roi_box (fst (main lib parser frames ws)))
                  (TermCriteria (TermCriteria_EPS OR TermCriteria_COUNT) 10 1)"
    and "roi_box (fst (main lib parser frames ws)) =
           roi_box_of (roi_points (fst (main lib parser frames ws)))"
proof -
  let ?tc = "TermCriteria (TermCriteria_EPS OR TermCriteria_COUNT) 10 1"
  let ?st0 = "main_entry lib parser"
  obtain st' s where run: "main_loop lib ?tc frames ws ?st0 = (st', s)"
    by (cases "main_loop lib ?tc frames ws ?st0")
  have inv0: "box_inv ?st0"
    by (simp add: box_inv_def main_entry_fields rect_empty_def Rect_default_def)
  from main_loop_log [OF run inv0] obtain new where
    new: "log st' = log ?st0 @ new"
    and P: "\<forall>a\<in>set new. (\<exists>m. a = Imshow m) \<or> (\<exists>d. a = WaitKey d) \<or>
              (\<exists>bp. a = CamShiftCall bp (roi_box st') ?tc) \<and> \<not> rect_empty (roi_box st') \<and>
                roi_box st' = roi_box_of (roi_points st')"
    by (blast dest: log_growsD)
  have fin: "roi_box (fst (main lib parser frames ws)) = roi_box st'"
      "roi_points (fst (main lib parser frames ws)) = roi_points st'"
      "set (log (fst (main lib parser frames ws))) \<subseteq>
         set (log st') \<union> {CameraRelease, DestroyAllWindows}"
    using run by (cases s; auto simp: main_unfold)+
  from a fin(3) cam have "a \<in> set (log st')" by auto
  with new main_entry_fields(3) [of lib parser] cam have "a \<in> set new" by auto
  with P cam obtain bp where call: "a = CamShiftCall bp (roi_box st') ?tc"
    and derived: "roi_box st' = roi_box_of (roi_points st')" by auto
  show "\<exists>bp. a = CamShiftCall bp (roi_box (fst (main lib parser frames ws))) ?tc"
    unfolding fin(1) using call by blast
  show "roi_box (fst (main lib parser frames ws)) =
          roi_box_of (roi_points (fst (main lib parser frames ws)))"
    unfolding fin(1) fin(2) by (fact derived)
qed

text \<open>
  Claim C3, as amended. In every run of the program, the search window passed to the
  tracking primitive is the ROI box that the selection derived from the recorded points,
  the value of \<^verbatim>\<open>roi_box\<close> in \<^verbatim>\<open>main\<close>: the window that a search leaves is
  dropped, so the seed window is the same on every frame.
\<close>

theorem camshift_window_is_selected_box:
  assumes "CamShiftCall bp w c \<in> set (log (fst (main lib parser frames ws)))"
  shows "w = roi_box (fst (main lib parser frames ws)) \<and>
         w = roi_box_of (roi_points (fst (main lib parser frames ws)))"
  using main_camshift_calls [OF assms] by auto

text \<open>
  Claim C3, an instance: in the recorded session the second tracked frame is searched from
  the selected box (10,10,40,40).
\<close>

theorem camshift_window_is_selected_box_witness:
  "CamShiftCall 3495 (Rect 10 10 40 40) (TermCriteria 3 10 1) \<in> set (log (fst toy_run)) \<and>
   Rect 10 10 40 40 = roi_box (fst toy_run) \<and>
   Rect 10 10 40 40 = roi_box_of (roi_points (fst toy_run))"
proof -
  have h: "CamShiftCall 3495 (Rect 10 10 40 40) (TermCriteria 3 10 1) \<in>
      set (log (fst (main toy_lib \<lparr>has_help = False, video = []\<rparr> [5, 6, 7] toy_waits)))"
    by code_simp
  note c = camshift_window_is_selected_box [OF h]
  show ?thesis unfolding toy_run_def using h c by blast
qed

text \<open>
  Claim C3 as stated fails: in the recorded session the search on the first tracked frame
  starts from (10,10,40,40) and leaves the window (11,11,40,40), and the search on the
  next frame starts from (10,10,40,40) again.
\<close>

theorem camshift_window_counterexample:
  "camshift_calls (log (fst toy_run)) =
     [(3493, Rect 10 10 40 40, TermCriteria 3 10 1), (3495, Rect 10 10 40 40, TermCriteria 3 10 1)] \<and>
   snd (CamShift toy_lib 3493 (Rect 10 10 40 40) (TermCriteria 3 10 1)) = Rect 11 11 40 40"
  by code_simp

text \<open>
  Claim C8. Every call of the tracking primitive, in every run of the program, is given
  the criteria built once in \<^verbatim>\<open>main\<close>: type \<^verbatim>\<open>EPS | COUNT\<close> (3), at most 10
  iterations, epsilon 1.
\<close>

theorem camshift_criteria_fixed:
  assumes "CamShiftCall bp w c \<in> set (log (fst (main lib parser frames ws)))"
  shows "c = TermCriteria (TermCriteria_EPS OR TermCriteria_COUNT) 10 1 \<and>
         tc_type c = 3 \<and> tc_maxCount c = 10 \<and> tc_epsilon c = 1"
  using main_camshift_calls(1) [OF assms]
  by (auto simp: TermCriteria_EPS_def TermCriteria_COUNT_def)

text \<open>Claim C8, an instance: the first tracking call of the recorded session.\<close>

theorem camshift_criteria_fixed_witness:
  "CamShiftCall 3493 (Rect 10 10 40 40) (TermCriteria 3 10 1) \<in> set (log (fst toy_run)) \<and>
   tc_maxCount (TermCriteria 3 10 1) = 10"
proof -
  have h: "CamShiftCall 3493 (Rect 10 10 40 40) (TermCriteria 3 10 1) \<in>
      set (log (fst (main toy_lib \<lparr>has_help = False, video = []\<rparr> [5, 6, 7] toy_waits)))"
    by code_simp
  note c = camshift_criteria_fixed [OF h]
  show ?thesis unfolding toy_run_def using h c by blast
qed

text \<open>
  Claim C4 (the program is to exit on the help flag without opening a camera). With the
  help flag, \<^verbatim>\<open>get_arguments\<close> prints the usage and returns to \<^verbatim>\<open>main\<close>, which goes
  on with an empty path: it opens camera 0, shows the first frame and leaves its loop only
  when the camera gives no frame.
\<close>

theorem help_flag_still_opens_camera:
  "log (fst (main toy_lib \<lparr>has_help = True, video = []\<rparr> [5, 0] [([], - 1)])) =
     [PrintMessage, CameraOpenDevice 0, NamedWindow, SetMouseCallback, Imshow 5, WaitKey 1,
      CameraRelease, DestroyAllWindows]"
  by code_simp

lemma help_flag_opens_device:
  assumes "has_help parser"
  shows "take 4 (log (fst (main lib parser frames ws))) =
           [PrintMessage, CameraOpenDevice 0, NamedWindow, SetMouseCallback]"
proof -
  let ?tc = "TermCriteria (TermCriteria_EPS OR TermCriteria_COUNT) 10 1"
  let ?st0 = "main_entry lib parser"
  obtain st' s where run: "main_loop lib ?tc frames ws ?st0 = (st', s)"
    by (cases "main_loop lib ?tc frames ws ?st0")
  have entry: "log ?st0 = [PrintMessage, CameraOpenDevice 0, NamedWindow, SetMouseCallback]"
    using assms by (simp add: main_entry_def get_arguments_def init_state_def Let_def emit_def)
  have inv0: "box_inv ?st0"
    by (simp add: box_inv_def main_entry_fields rect_empty_def Rect_default_def)
  from main_loop_log [OF run inv0] obtain new where "log st' = log ?st0 @ new"
    by (blast dest: log_growsD)
  with entry run show ?thesis by (cases s) (simp_all add: main_unfold)
qed

text \<open>
  Claim C5. When the camera gives an empty frame the main loop is left at once: nothing is
  called in that turn, so no tracking is computed, and whatever the camera and the user
  would give afterwards is never read.
\<close>

theorem main_loop_stops_without_frame:
  assumes "empty lib f"
  shows "main_loop lib tc (f # fs) ws st = (st\<lparr>mats := (mats st)(frame_addr := f)\<rparr>, Exited) \<and>
         log (fst (main_loop lib tc (f # fs) ws st)) = log st \<and>
         main_loop lib tc (pre @ f # fs) ws st = main_loop lib tc (pre @ [f]) ws st"
  using assms main_loop_after_no_frame [OF assms] by (simp add: main_iter_no_frame)

text \<open>
  Claim C5, an instance: after a completed selection, an empty frame ends the loop with the
  log as it was, although two more frames were available.
\<close>

theorem main_loop_stops_without_frame_witness:
  "empty toy_lib 0 \<and>
   snd (main_loop toy_lib toy_tc [0, 6, 7] [([], - 1)] toy_selected) = Exited \<and>
   log (fst (main_loop toy_lib toy_tc [0, 6, 7] [([], - 1)] toy_selected)) = log toy_selected"
proof -
  have h: "empty toy_lib 0" by code_simp
  from h main_loop_stops_without_frame [OF h, of toy_tc "[6, 7]" "[([], - 1)]" toy_selected "[]"]
  show ?thesis by simp
qed

text \<open>
  Claim C6. Whatever mouse events arrive, the callback never makes the list of recorded
  points longer than 4, and once it holds 4 points it does not change; the list has at
  most 4 points at the end of every run of the program.
\<close>

theorem select_roi_never_fifth_point:
  assumes "length (roi_points st) \<le> 4"
  shows "length (roi_points (foldl (\<lambda>s ev. select_roi lib ev s) st evs)) \<le> 4 \<and>
         (length (roi_points st) = 4 \<longrightarrow>
            roi_points (foldl (\<lambda>s ev. select_roi lib ev s) st evs) = roi_points st) \<and>
         length (roi_points (fst (main lib parser frames ws))) \<le> 4"
  using dispatch_length [OF assms] main_points_bound [of lib parser frames ws]
  by (simp add: dispatch_full)

text \<open>Claim C6, an instance: six left clicks in selection mode record the first four.\<close>

theorem select_roi_never_fifth_point_witness:
  "length (roi_points ((toy_frame 5)\<lparr>input_mode := True\<rparr>)) \<le> 4 \<and>
   roi_points (foldl (\<lambda>s ev. select_roi toy_lib ev s) ((toy_frame 5)\<lparr>input_mode := True\<rparr>)
     [(1, 10, 10), (1, 10, 50), (1, 50, 10), (1, 50, 50), (1, 60, 60), (1, 70, 70)]) =
     [Point 10 10, Point 10 50, Point 50 10, Point 50 50]"
proof -
  have h: "length (roi_points ((toy_frame 5)\<lparr>input_mode := True\<rparr>)) \<le> 4" by code_simp
  have "roi_points (foldl (\<lambda>s ev. select_roi toy_lib ev s) ((toy_frame 5)\<lparr>input_mode := True\<rparr>)
     [(1, 10, 10), (1, 10, 50), (1, 50, 10), (1, 50, 50), (1, 60, 60), (1, 70, 70)]) =
     [Point 10 10, Point 10 50, Point 50 10, Point 50 50]" by code_simp
  with h select_roi_never_fifth_point [OF h, of toy_lib "[(1, 60, 60)]"] show ?thesis by simp
qed

text \<open>
  Claim C7. The histogram that \<^verbatim>\<open>frame_roi\<close> returns is computed from the region of the
  frame as it was when \<^verbatim>\<open>frame_roi\<close> was entered, whatever was clicked and whatever the
  markers drew on the live frame meanwhile (16 bins over the range 0 to 180, normalised
  to 0 to 255).
\<close>

theorem frame_roi_hist_from_frozen_copy:
  assumes "fst (frame_roi lib ws st) = Some (h, b)"
  shows "h = normalize_MINMAX lib
               (calcHist lib (cvtColor_BGR2HSV lib (submat lib (mats st frame_addr) b)) 16 (0, 180))
               0 255"
proof -
  from assms obtain st' ws' where "frame_roi lib ws st = (Some (h, b), st', ws')"
    by (cases "frame_roi lib ws st") simp
  from frame_roi_props(6) [OF this] show ?thesis by simp
qed

text \<open>
  Claim C7, an instance: the four markers change the live frame from 5 to 9, and the
  histogram is the one of the region of frame 5.
\<close>

theorem frame_roi_hist_from_frozen_copy_witness:
  "fst (frame_roi toy_lib (tl toy_waits) (toy_frame 5)) = Some (3481, Rect 10 10 40 40) \<and>
   mats (toy_frame 5) frame_addr = 5 \<and>
   mats (fst (snd (frame_roi toy_lib (tl toy_waits) (toy_frame 5)))) frame_addr = 9 \<and>
   3481 = normalize_MINMAX toy_lib
            (calcHist toy_lib
               (cvtColor_BGR2HSV toy_lib
                  (submat toy_lib (mats (toy_frame 5) frame_addr) (Rect 10 10 40 40)))
               16 (0, 180))
            0 255"
proof -
  have h: "fst (frame_roi toy_lib (tl toy_waits) (toy_frame 5)) = Some (3481, Rect 10 10 40 40)"
    by code_simp
  have before: "mats (toy_frame 5) frame_addr = 5"
    by code_simp
  have after: "mats (fst (snd (frame_roi toy_lib (tl toy_waits) (toy_frame 5)))) frame_addr = 9"
    by code_simp
  from h before after frame_roi_hist_from_frozen_copy [OF h] show ?thesis by blast
qed

lemma camshift_calls_none: "list_all (\<lambda>a. \<not> is_camshift a) as \<Longrightarrow> camshift_calls as = []"
  by (induction as rule: camshift_calls.induct) simp_all

text \<open>
  Claim C9. Once 4 points are recorded, no run of the main loop changes the points, the
  ROI box or the ROI histogram, clones the frame again or waits for a selection
  (\<^verbatim>\<open>waitKey(0)\<close>): no second selection starts.
\<close>

theorem selection_is_one_shot:
  assumes "length (roi_points st) = 4"
  shows "roi_points (fst (main_loop lib tc fs ws st)) = roi_points st \<and>
         roi_box (fst (main_loop lib tc fs ws st)) = roi_box st \<and>
         roi_hist (fst (main_loop lib tc fs ws st)) = roi_hist st \<and>
         nalloc (fst (main_loop lib tc fs ws st)) = nalloc st \<and>
         WaitKey 0 \<notin> set (drop (length (log st)) (log (fst (main_loop lib tc fs ws st))))"
proof -
  obtain st' s where run: "main_loop lib tc fs ws st = (st', s)"
    by (cases "main_loop lib tc fs ws st")
  from assms have full: "4 \<le> length (roi_points st)" by simp
  note fz = main_loop_frozen [OF run full]
  from fz have "WaitKey 0 \<notin> set (drop (length (log st)) (log st'))"
    by (auto simp: log_grows_def list_all_iff)
  with fz show ?thesis by (simp add: run)
qed

text \<open>
  Claim C9, an instance: after the selection of the recorded session, the key \<^verbatim>\<open>i\<close> and
  a further click change nothing.
\<close>

theorem selection_is_one_shot_witness:
  "length (roi_points toy_selected) = 4 \<and>
   roi_points (fst (main_loop toy_lib toy_tc [6, 7] (drop 3 toy_waits) toy_selected)) =
     roi_points toy_selected \<and>
   roi_box (fst (main_loop toy_lib toy_tc [6, 7] (drop 3 toy_waits) toy_selected)) =
     roi_box toy_selected \<and>
   roi_hist (fst (main_loop toy_lib toy_tc [6, 7] (drop 3 toy_waits) toy_selected)) =
     roi_hist toy_selected \<and>
   nalloc (fst (main_loop toy_lib toy_tc [6, 7] (drop 3 toy_waits) toy_selected)) =
     nalloc toy_selected \<and>
   WaitKey 0 \<notin> set (drop (length (log toy_selected))
     (log (fst (main_loop toy_lib toy_tc [6, 7] (drop 3 toy_waits) toy_selected))))"
proof -
  have h: "length (roi_points toy_selected) = 4" by code_simp
  from h selection_is_one_shot [OF h, of toy_lib toy_tc "[6, 7]" "drop 3 toy_waits"]
  show ?thesis by (intro conjI) blast+
qed

text \<open>
  Claim C10. After a completed selection whose box is empty, the main loop never calls the
  tracking primitive: all it does is show the frames as the camera gives them and poll
  the keyboard, and the box stays empty.
\<close>

theorem empty_box_never_tracks:
  assumes "length (roi_points st) = 4" and "rect_empty (roi_box st)"
  shows "camshift_calls (drop (length (log st)) (log (fst (main_loop lib tc fs ws st)))) = [] \<and>
         list_all (\<lambda>a. a = WaitKey 1 \<or> (\<exists>f\<in>set fs. a = Imshow f))
           (drop (length (log st)) (log (fst (main_loop lib tc fs ws st)))) \<and>
         rect_empty (roi_box (fst (main_loop lib tc fs ws st)))"
proof -
  obtain st' s where run: "main_loop lib tc fs ws st = (st', s)"
    by (cases "main_loop lib tc fs ws st")
  from assms have full: "4 \<le> length (roi_points st)" by simp
  note fz = main_loop_frozen [OF run full]
  from fz assms(2) have shown: "list_all (\<lambda>a. a = WaitKey 1 \<or> (\<exists>f\<in>set fs. a = Imshow f))
      (drop (length (log st)) (log st'))"
    by (auto simp: log_grows_def list_all_iff)
  then have "list_all (\<lambda>a. \<not> is_camshift a) (drop (length (log st)) (log st'))"
    by (auto simp: list_all_iff)
  then have "camshift_calls (drop (length (log st)) (log st')) = []"
    by (rule camshift_calls_none)
  with shown fz assms(2) show ?thesis by (simp add: run)
qed

text \<open>
  Claim C10, an instance: four clicks on (20,20) give the box (20,20,0,0); the next two
  frames are shown as they are and nothing is tracked.
\<close>

theorem empty_box_never_tracks_witness:
  "length (roi_points toy_degenerate) = 4 \<and> rect_empty (roi_box toy_degenerate) \<and>
   roi_points toy_degenerate = [Point 20 20, Point 20 20, Point 20 20, Point 20 20] \<and>
   drop (length (log toy_degenerate))
     (log (fst (main_loop toy_lib toy_tc [6, 7] [([], - 1), ([], - 1)] toy_degenerate))) =
     [Imshow 6, WaitKey 1, Imshow 7, WaitKey 1] \<and>
   camshift_calls (drop (length (log toy_degenerate))
     (log (fst (main_loop toy_lib toy_tc [6, 7] [([], - 1), ([], - 1)] toy_degenerate)))) = []"
proof -
  have h1: "length (roi_points toy_degenerate) = 4" by code_simp
  have h2: "rect_empty (roi_box toy_degenerate)" by code_simp
  have pts: "roi_points toy_degenerate = [Point 20 20, Point 20 20, Point 20 20, Point 20 20]"
    by code_simp
  have shown: "drop (length (log toy_degenerate))
     (log (fst (main_loop toy_lib toy_tc [6, 7] [([], - 1), ([], - 1)] toy_degenerate))) =
     [Imshow 6, WaitKey 1, Imshow 7, WaitKey 1]" by code_simp
  from h1 h2 pts shown
    empty_box_never_tracks [OF h1 h2, of toy_lib toy_tc "[6, 7]" "[([], - 1), ([], - 1)]"]
  show ?thesis by (intro conjI) blast+
qed

end
